theory Spec2Isabelle
  imports Main "HOL-Library.Word" "HOL-Library.AList"
begin

text \<open>
  A shallow embedding of the Go proxy of \<^verbatim>\<open>pkg/proxy\<close>: the connection registry and its
  counters (\<^verbatim>\<open>connmanager.go\<close>), the admission filter (\<^verbatim>\<open>filter.go\<close>), the TLS front door
  with its ClientHello peek (\<^verbatim>\<open>https.go\<close>) and the HTTP front door (\<^verbatim>\<open>events.go\<close>).
  Mutable state (the registry, the package-level counters, the sockets) is passed
  explicitly; effects on the outside are collected in a trace. The parts of the Go
  standard library the handlers rest on (\<^verbatim>\<open>bufio.Reader\<close>, the read loop of \<^verbatim>\<open>io.Copy\<close>,
  \<^verbatim>\<open>http.Error\<close> and \<^verbatim>\<open>Hijack\<close>) are written out next to the code that calls them.
\<close>

section \<open>Strings\<close>

text \<open>
  Go strings and byte slices are byte sequences; both are \<open>string\<close> (a \<open>char list\<close>) here.
  \<open>ToLower\<close> is \<^verbatim>\<open>strings.ToLower\<close> on ASCII input (host names are ASCII): bytes
  \<^verbatim>\<open>'A'..'Z'\<close> are moved to \<^verbatim>\<open>'a'..'z'\<close>, every other byte is kept.
  \<open>HasPrefix\<close> is \<^verbatim>\<open>strings.HasPrefix\<close>; \<open>dec\<close> is the \<^verbatim>\<open>%d\<close> verb of
  \<^verbatim>\<open>fmt.Sprintf\<close> on an unsigned value.
\<close>

definition lower_char :: "char \<Rightarrow> char" where
  "lower_char c =
     (case map_of (zip ''ABCDEFGHIJKLMNOPQRSTUVWXYZ'' ''abcdefghijklmnopqrstuvwxyz'') c of
        None \<Rightarrow> c
      | Some l \<Rightarrow> l)"

definition ToLower :: "string \<Rightarrow> string" where
  "ToLower s = map lower_char s"

definition HasPrefix :: "string \<Rightarrow> string \<Rightarrow> bool" where
  "HasPrefix s p = (length p \<le> length s \<and> take (length p) s = p)"

definition digit :: "nat \<Rightarrow> char" where
  "digit d = ''0123456789'' ! d"

fun dec :: "nat \<Rightarrow> string" where
  "dec n = (if n < 10 then [digit n] else dec (n div 10) @ [digit (n mod 10)])"

declare dec.simps [simp del]

section \<open>Sockets, the buffered reader and connections\<close>

datatype error = EOF | ErrBufferFull | ErrSNINotFound

text \<open>
  A TCP socket as the reading side sees it: its descriptor, the peer's address and the
  segments still to be delivered. One \<^verbatim>\<open>Read(p)\<close> with \<open>k = len(p)\<close> blocks until data or
  end of stream: it returns at most \<open>k\<close> bytes of the next non-empty segment and leaves the
  remainder of that segment pending; with nothing pending it reports \<open>EOF\<close>.
\<close>

record sock =
  fd :: nat
  raddr :: string
  pending :: "string list"

fun seg_read :: "nat \<Rightarrow> string list \<Rightarrow> (string \<times> error option) \<times> string list" where
  "seg_read k [] = (([], Some EOF), [])"
| "seg_read k (c # cs) =
     (if c = [] then seg_read k cs
      else if length c \<le> k then ((c, None), cs)
      else ((take k c, None), drop k c # cs))"

definition sock_Read :: "nat \<Rightarrow> sock \<Rightarrow> (string \<times> error option) \<times> sock" where
  "sock_Read k s = (case seg_read k (pending s) of (r, p') \<Rightarrow> (r, s\<lparr>pending := p'\<rparr>))"

text \<open>
  \<^verbatim>\<open>bufio.Reader\<close> of the Go standard library, as \<^verbatim>\<open>bufio.NewReader\<close> builds it (buffer
  of \<open>defaultBufSize = 4096\<close> bytes): \<open>rbuf\<close> is the unread part \<^verbatim>\<open>buf[r:w]\<close> of the
  buffer, \<open>rerr\<close> the pending error \<^verbatim>\<open>b.err\<close>, \<open>rd\<close> the underlying socket.
  \<open>fill\<close> reads once into the free space (the socket above never returns zero bytes
  without an error, so the retry loop of \<^verbatim>\<open>fill\<close> runs once); \<open>readErr\<close> hands the pending
  error out and clears it.
\<close>

record bufio_Reader =
  rbuf :: string
  rerr :: "error option"
  rd :: sock

definition defaultBufSize :: nat where
  "defaultBufSize = 4096"

definition NewReader :: "sock \<Rightarrow> bufio_Reader" where
  "NewReader s = \<lparr>rbuf = [], rerr = None, rd = s\<rparr>"

definition fill :: "bufio_Reader \<Rightarrow> bufio_Reader" where
  "fill b =
     (case sock_Read (defaultBufSize - length (rbuf b)) (rd b) of
        ((d, e), s') \<Rightarrow> b\<lparr>rbuf := rbuf b @ d, rerr := e, rd := s'\<rparr>)"

definition stream_left :: "bufio_Reader \<Rightarrow> nat" where
  "stream_left b = (if rerr b = None then 1 else 0) + length (concat (pending (rd b)))"

lemma seg_read_concat:
  "seg_read k p = ((d, e), p') \<Longrightarrow> d @ concat p' = concat p"
  by (induction k p rule: seg_read.induct) (auto split: if_splits)

lemma seg_read_progress:
  "seg_read k p = ((d, e), p') \<Longrightarrow> 0 < k \<Longrightarrow> (e = None \<and> d \<noteq> []) \<or> (e = Some EOF \<and> d = [] \<and> p' = [])"
  by (induction k p rule: seg_read.induct) (auto split: if_splits)

lemma fill_decreases:
  assumes "rerr b = None" and "length (rbuf b) < defaultBufSize"
  shows "stream_left (fill b) < stream_left b"
proof -
  obtain d e p' where r: "seg_read (defaultBufSize - length (rbuf b)) (pending (rd b)) = ((d, e), p')"
    by (metis prod.exhaust)
  from assms(2) have k: "0 < defaultBufSize - length (rbuf b)" by simp
  from seg_read_concat [OF r] have c: "length d + length (concat p') = length (concat (pending (rd b)))"
    by (metis length_append)
  from seg_read_progress [OF r k] have "(e = None \<and> Suc 0 \<le> length d) \<or> (e = Some EOF \<and> length d = 0)"
    by (cases d) auto
  moreover have "stream_left (fill b) = (if e = None then 1 else 0) + length (concat p')"
    by (simp add: stream_left_def fill_def sock_Read_def r)
  moreover have "stream_left b = 1 + length d + length (concat p')"
    using c assms(1) by (simp add: stream_left_def)
  ultimately show ?thesis
    by (cases "e = None") auto
qed

text \<open>
  \<^verbatim>\<open>Peek(n)\<close>: fill until \<open>n\<close> bytes are buffered, the buffer is full or an error is
  pending; then return the first \<open>n\<close> buffered bytes, or all of them with the error
  (\<open>ErrBufferFull\<close> when none is pending) when fewer are there.
\<close>

function Peek_loop :: "nat \<Rightarrow> bufio_Reader \<Rightarrow> bufio_Reader" where
  "Peek_loop n b =
     (if length (rbuf b) < n \<and> length (rbuf b) < defaultBufSize \<and> rerr b = None
      then Peek_loop n (fill b) else b)"
  by pat_completeness auto
termination
  by (relation "measure (\<lambda>(n, b). stream_left b)") (auto intro: fill_decreases)

declare Peek_loop.simps [simp del]

definition readErr :: "bufio_Reader \<Rightarrow> error option \<times> bufio_Reader" where
  "readErr b = (rerr b, b\<lparr>rerr := None\<rparr>)"

definition Peek :: "nat \<Rightarrow> bufio_Reader \<Rightarrow> (string \<times> error option) \<times> bufio_Reader" where
  "Peek n b0 =
     (let b = Peek_loop n b0 in
      if defaultBufSize < n then ((rbuf b, Some ErrBufferFull), b)
      else if length (rbuf b) < n then
        (case readErr b of
           (None, b') \<Rightarrow> ((rbuf b, Some ErrBufferFull), b')
         | (Some e, b') \<Rightarrow> ((rbuf b, Some e), b'))
      else ((take n (rbuf b), None), b))"

text \<open>
  \<^verbatim>\<open>(*bufio.Reader).Read(p)\<close> with \<open>k = len(p)\<close>: buffered bytes are served first; with an
  empty buffer a pending error is returned, a read of at least the buffer size goes to the
  socket directly, and a smaller one refills the buffer with a single socket read.
\<close>

definition bufio_Read :: "nat \<Rightarrow> bufio_Reader \<Rightarrow> (string \<times> error option) \<times> bufio_Reader" where
  "bufio_Read k b =
     (if k = 0 then
        (if rbuf b \<noteq> [] then (([], None), b)
         else (case readErr b of (e, b') \<Rightarrow> (([], e), b')))
      else if rbuf b = [] then
        (if rerr b \<noteq> None then (case readErr b of (e, b') \<Rightarrow> (([], e), b'))
         else if defaultBufSize \<le> k then
           (case sock_Read k (rd b) of
              ((d, e), s') \<Rightarrow> (case readErr (b\<lparr>rerr := e, rd := s'\<rparr>) of (e', b') \<Rightarrow> ((d, e'), b')))
         else
           (case sock_Read defaultBufSize (rd b) of
              ((d, e), s') \<Rightarrow>
                (if d = [] then (case readErr (b\<lparr>rerr := e, rd := s'\<rparr>) of (e', b') \<Rightarrow> (([], e'), b'))
                 else ((take k d, None), b\<lparr>rbuf := drop k d, rerr := e, rd := s'\<rparr>))))
      else ((take k (rbuf b), None), b\<lparr>rbuf := drop k (rbuf b)\<rparr>))"

text \<open>
  A \<^verbatim>\<open>net.Conn\<close> is either the accepted or dialled TCP socket itself, or the
  \<^verbatim>\<open>connWithBufferedReader\<close> of \<^verbatim>\<open>https.go\<close>, whose \<^verbatim>\<open>Read\<close> is the reader's and whose
  embedded \<^verbatim>\<open>Conn\<close> is the reader's own underlying socket \<open>rd\<close>. Connections handed to
  the registry are never nil in this model, as at every call of \<^verbatim>\<open>Add\<close> in the source.
\<close>

datatype conn = TCPConn sock | connWithBufferedReader bufio_Reader

fun conn_sock :: "conn \<Rightarrow> sock" where
  "conn_sock (TCPConn s) = s"
| "conn_sock (connWithBufferedReader b) = rd b"

fun conn_Read :: "nat \<Rightarrow> conn \<Rightarrow> (string \<times> error option) \<times> conn" where
  "conn_Read k (TCPConn s) = (case sock_Read k s of (r, s') \<Rightarrow> (r, TCPConn s'))"
| "conn_Read k (connWithBufferedReader b) =
     (case bufio_Read k b of (r, b') \<Rightarrow> (r, connWithBufferedReader b'))"

definition RemoteAddr :: "conn \<Rightarrow> string" where
  "RemoteAddr c = raddr (conn_sock c)"

fun unread :: "conn \<Rightarrow> nat" where
  "unread (TCPConn s) = length (concat (pending s))"
| "unread (connWithBufferedReader b) = length (rbuf b) + length (concat (pending (rd b)))"

lemma seg_read_err:
  "seg_read k p = ((d, Some e), p') \<Longrightarrow> d = [] \<and> p' = [] \<and> concat p = [] \<and> e = EOF"
  by (induction k p rule: seg_read.induct) (auto split: if_splits)

lemma seg_read_shrinks:
  assumes "seg_read k p = ((d, None), p')" and "0 < k"
  shows "length (concat p') < length (concat p)"
proof -
  from seg_read_progress [OF assms] have "Suc 0 \<le> length d" by (cases d) auto
  moreover from seg_read_concat [OF assms(1)] have "length d + length (concat p') = length (concat p)"
    by (metis length_append)
  ultimately show ?thesis by linarith
qed

lemma conn_Read_shrinks:
  assumes "conn_Read k c = ((d, None), c')" and "0 < k"
  shows "unread c' < unread c"
proof (cases c)
  case (TCPConn s)
  with assms show ?thesis
    by (auto simp: sock_Read_def split: prod.splits dest: seg_read_shrinks)
next
  case (connWithBufferedReader b)
  show ?thesis
  proof (cases "rbuf b = []")
    case False
    then have "length (drop k (rbuf b)) < length (rbuf b)" using assms(2) by simp
    with assms False connWithBufferedReader show ?thesis
      by (auto simp: bufio_Read_def)
  next
    case True
    obtain d1 e1 p1 where r1: "seg_read k (pending (rd b)) = ((d1, e1), p1)" by (metis prod.exhaust)
    obtain d2 e2 p2 where r2: "seg_read defaultBufSize (pending (rd b)) = ((d2, e2), p2)" by (metis prod.exhaust)
    have pos: "0 < defaultBufSize" by (simp add: defaultBufSize_def)
    show ?thesis
    proof (cases "defaultBufSize \<le> k")
      case True
      with assms \<open>rbuf b = []\<close> connWithBufferedReader r1 show ?thesis
        by (auto simp: bufio_Read_def readErr_def sock_Read_def split: if_splits dest: seg_read_shrinks)
    next
      case False
      have "d2 \<noteq> [] \<Longrightarrow> length (drop k d2) + length (concat p2) < length (concat (pending (rd b)))"
      proof -
        assume "d2 \<noteq> []"
        then have "length (drop k d2) < length d2" using assms(2) by simp
        moreover from seg_read_concat [OF r2] have "length d2 + length (concat p2) = length (concat (pending (rd b)))"
          by (metis length_append)
        ultimately show ?thesis by linarith
      qed
      moreover have "\<not> (d2 = [] \<and> e2 = None)"
        using seg_read_progress [OF r2 pos] by auto
      ultimately show ?thesis
        using False assms \<open>rbuf b = []\<close> connWithBufferedReader r2
        by (auto simp: bufio_Read_def readErr_def sock_Read_def split: if_splits)
    qed
  qed
qed

text \<open>
  The read loop of \<^verbatim>\<open>io.Copy\<close> (the byte pump of \<^verbatim>\<open>proxyCopy\<close>) with a buffer of \<open>k\<close>
  bytes: read until a read reports an error, keeping every byte read. \<^verbatim>\<open>io.Copy\<close>
  allocates 32 KiB; a buffer of no bytes could make no progress and reads nothing here.
\<close>

function read_all :: "nat \<Rightarrow> conn \<Rightarrow> string" where
  "read_all k c =
     (if k = 0 then []
      else (case conn_Read k c of
              ((d, e), c') \<Rightarrow> (if e \<noteq> None then d else d @ read_all k c')))"
  by pat_completeness auto
termination
  by (relation "measure (\<lambda>(k, c). unread c)") (auto intro: conn_Read_shrinks [OF sym])


declare read_all.simps [simp del]

definition copyBufSize :: nat where
  "copyBufSize = 32 * 1024"

section \<open>The connection registry (connmanager.go)\<close>

record ConnMeta =
  ID :: string
  ClientAddr :: string
  ServerAddr :: string
  Hostname :: string
  SNI :: string
  Protocol :: string
  HAProxyAddr :: string
  CreatedAt :: nat

record ProxyConnection =
  Client :: conn
  Server :: conn
  Meta :: ConnMeta

text \<open>
  \<^verbatim>\<open>sync.Map\<close> is an association list with distinct keys, in insertion order (one of the
  orders \<^verbatim>\<open>Range\<close> may take); \<open>idSeq\<close> is the \<^verbatim>\<open>uint64\<close> counter; the five
  package-level counters are \<^verbatim>\<open>int64\<close>, read with \<open>sint\<close>.
\<close>

record ConnManager =
  conns :: "(string \<times> ProxyConnection) list"
  idSeq :: "64 word"

record Metrics =
  ClientProxyConns :: "64 word"
  ProxyServerConns :: "64 word"
  ProxyHAProxyConns :: "64 word"
  HTTPConnCount :: "64 word"
  HTTPSConnCount :: "64 word"

text \<open>
  What the proxy does to the outside is kept as a trace: bytes written to a socket, a
  socket closed, a dial attempted, a response sent through the HTTP server's
  \<^verbatim>\<open>ResponseWriter\<close> (status code and body). Log lines and write deadlines are left out.
\<close>

datatype event =
  ConnWrite nat string
| ConnClose nat
| DialAttempt string
| HTTPResponse nat nat string

record world =
  cm :: ConnManager
  metrics :: Metrics
  trace :: "event list"

definition NewConnManager :: ConnManager where
  "NewConnManager = \<lparr>conns = [], idSeq = 0\<rparr>"

definition fresh :: world where
  "fresh = \<lparr>cm = NewConnManager,
            metrics = \<lparr>ClientProxyConns = 0, ProxyServerConns = 0, ProxyHAProxyConns = 0,
                       HTTPConnCount = 0, HTTPSConnCount = 0\<rparr>,
            trace = []\<rparr>"

definition emit :: "event \<Rightarrow> world \<Rightarrow> world" where
  "emit e w = w\<lparr>trace := trace w @ [e]\<rparr>"

definition conn_Write :: "conn \<Rightarrow> string \<Rightarrow> world \<Rightarrow> world" where
  "conn_Write c bs w = emit (ConnWrite (fd (conn_sock c)) bs) w"

definition conn_Close :: "conn \<Rightarrow> world \<Rightarrow> world" where
  "conn_Close c w = emit (ConnClose (fd (conn_sock c))) w"

definition NextID :: "world \<Rightarrow> string \<times> world" where
  "NextID w =
     (let n = idSeq (cm w) + 1
      in (''conn-'' @ dec (unat n), w\<lparr>cm := (cm w)\<lparr>idSeq := n\<rparr>\<rparr>))"

definition Store :: "string \<Rightarrow> ProxyConnection \<Rightarrow> world \<Rightarrow> world" where
  "Store k v w = w\<lparr>cm := (cm w)\<lparr>conns := AList.update k v (conns (cm w))\<rparr>\<rparr>"

definition Load :: "string \<Rightarrow> world \<Rightarrow> ProxyConnection option" where
  "Load k w = map_of (conns (cm w)) k"

definition Delete :: "string \<Rightarrow> world \<Rightarrow> world" where
  "Delete k w = w\<lparr>cm := (cm w)\<lparr>conns := AList.delete k (conns (cm w))\<rparr>\<rparr>"

definition Add :: "conn \<Rightarrow> conn \<Rightarrow> ConnMeta \<Rightarrow> world \<Rightarrow> string \<times> world" where
  "Add client server meta0 w0 =
     (case NextID w0 of (i, w1) \<Rightarrow>
        let meta = meta0\<lparr>ID := i\<rparr>;
            w2 = Store i \<lparr>Client = client, Server = server, Meta = meta\<rparr> w1;
            w3 = w2\<lparr>metrics := (metrics w2)\<lparr>ClientProxyConns := ClientProxyConns (metrics w2) + 1\<rparr>\<rparr>;
            w4 = w3\<lparr>metrics := (metrics w3)\<lparr>ProxyServerConns := ProxyServerConns (metrics w3) + 1\<rparr>\<rparr>;
            w5 = (if HasPrefix (Protocol meta) ''https''
                  then w4\<lparr>metrics := (metrics w4)\<lparr>HTTPSConnCount := HTTPSConnCount (metrics w4) + 1\<rparr>\<rparr>
                  else w4\<lparr>metrics := (metrics w4)\<lparr>HTTPConnCount := HTTPConnCount (metrics w4) + 1\<rparr>\<rparr>);
            w6 = (if HAProxyAddr meta \<noteq> ''''
                  then w5\<lparr>metrics := (metrics w5)\<lparr>ProxyHAProxyConns := ProxyHAProxyConns (metrics w5) + 1\<rparr>\<rparr>
                  else w5)
        in (i, w6))"

definition Remove :: "string \<Rightarrow> world \<Rightarrow> world" where
  "Remove i w0 =
     (case Load i w0 of
        None \<Rightarrow> w0
      | Some pc \<Rightarrow>
          let w1 = Delete i w0;
              w2 = w1\<lparr>metrics := (metrics w1)\<lparr>ClientProxyConns := ClientProxyConns (metrics w1) - 1\<rparr>\<rparr>;
              w3 = w2\<lparr>metrics := (metrics w2)\<lparr>ProxyServerConns := ProxyServerConns (metrics w2) - 1\<rparr>\<rparr>;
              w4 = (if HasPrefix (Protocol (Meta pc)) ''https''
                    then w3\<lparr>metrics := (metrics w3)\<lparr>HTTPSConnCount := HTTPSConnCount (metrics w3) - 1\<rparr>\<rparr>
                    else w3\<lparr>metrics := (metrics w3)\<lparr>HTTPConnCount := HTTPConnCount (metrics w3) - 1\<rparr>\<rparr>)
          in (if HAProxyAddr (Meta pc) \<noteq> ''''
              then w4\<lparr>metrics := (metrics w4)\<lparr>ProxyHAProxyConns := ProxyHAProxyConns (metrics w4) - 1\<rparr>\<rparr>
              else w4))"

definition sendHTTPConnectionClose :: "conn \<Rightarrow> world \<Rightarrow> world" where
  "sendHTTPConnectionClose c w =
     conn_Write c (''HTTP/1.1 200 OK'' @ [CHR 0x0D, CHR 0x0A] @ ''Connection: close''
                   @ [CHR 0x0D, CHR 0x0A, CHR 0x0D, CHR 0x0A]) w"

text \<open>
  \<^verbatim>\<open>CloseByFilter\<close> ranges over the entries; the callback deletes only the entry it is
  visiting, so every entry present at the start is visited once.
\<close>

definition close_entry :: "(ConnMeta \<Rightarrow> bool) \<Rightarrow> string \<times> ProxyConnection \<Rightarrow> world \<Rightarrow> world" where
  "close_entry flt kv w =
     (case kv of (key, pc) \<Rightarrow>
        if flt (Meta pc) then
          Delete key
            (conn_Close (Server pc)
              (conn_Close (Client pc)
                (sendHTTPConnectionClose (Server pc)
                  (sendHTTPConnectionClose (Client pc) w))))
        else w)"

definition CloseByFilter :: "(ConnMeta \<Rightarrow> bool) \<Rightarrow> world \<Rightarrow> world" where
  "CloseByFilter flt w = fold (close_entry flt) (conns (cm w)) w"

definition Stats :: "world \<Rightarrow> ConnMeta list" where
  "Stats w = map (\<lambda>kv. Meta (snd kv)) (conns (cm w))"

definition closeConnPair :: "string \<Rightarrow> world \<Rightarrow> world" where
  "closeConnPair i w =
     (case Load i w of
        None \<Rightarrow> w
      | Some pc \<Rightarrow> Remove i (conn_Close (Server pc) (conn_Close (Client pc) w)))"

section \<open>The admission filter (filter.go)\<close>

record RequestFilter =
  allowedHosts :: "string \<rightharpoonup> unit"
  allowedSNIs :: "string \<rightharpoonup> unit"
  lastReload :: nat

definition NewRequestFilter :: RequestFilter where
  "NewRequestFilter =
     \<lparr>allowedHosts = [''example.com'' \<mapsto> (), ''www.google.com'' \<mapsto> ()],
      allowedSNIs = [''example.com'' \<mapsto> (), ''www.google.com'' \<mapsto> ()],
      lastReload = 0\<rparr>"

definition AllowHTTP :: "RequestFilter \<Rightarrow> string \<Rightarrow> string \<Rightarrow> bool" where
  "AllowHTTP f host path =
     (case allowedHosts f (ToLower host) of Some _ \<Rightarrow> True | None \<Rightarrow> False)"

definition AllowSNI :: "RequestFilter \<Rightarrow> string \<Rightarrow> bool" where
  "AllowSNI f sni =
     (case allowedSNIs f (ToLower sni) of Some _ \<Rightarrow> True | None \<Rightarrow> False)"

text \<open>\<^verbatim>\<open>Reload\<close> always returns a nil error; \<open>now\<close> is the reading of the clock.\<close>

definition Reload :: "string list \<Rightarrow> string list \<Rightarrow> nat \<Rightarrow> RequestFilter \<Rightarrow> RequestFilter" where
  "Reload hosts snis now f =
     f\<lparr>allowedHosts := fold (\<lambda>h m. m(ToLower h \<mapsto> ())) hosts Map.empty,
       allowedSNIs := fold (\<lambda>s m. m(ToLower s \<mapsto> ())) snis Map.empty,
       lastReload := now\<rparr>"

section \<open>The TLS front door (https.go)\<close>

definition extractSNIFromTLSClientHello :: "string \<Rightarrow> string \<times> error option" where
  "extractSNIFromTLSClientHello data = (''example.com'', None)"

text \<open>
  \<^verbatim>\<open>peekClientHelloSNI\<close> returns \<open>Inl err\<close> for \<^verbatim>\<open>("", nil, err)\<close> and
  \<open>Inr (sni, wrappedConn)\<close> otherwise. The reader has read from the caller's socket, so the
  socket as the call leaves it is returned as well.
\<close>

definition peekClientHelloSNI :: "sock \<Rightarrow> (error + string \<times> conn) \<times> sock" where
  "peekClientHelloSNI c =
     (case Peek 1024 (NewReader c) of
        ((data, err), reader) \<Rightarrow>
          (case err of
             Some e \<Rightarrow> (Inl e, rd reader)
           | None \<Rightarrow>
               (case extractSNIFromTLSClientHello data of
                  (sni, err') \<Rightarrow>
                    if err' \<noteq> None \<or> sni = '''' then (Inl ErrSNINotFound, rd reader)
                    else (Inr (sni, connWithBufferedReader reader), rd reader))))"

definition parseClientHelloSNI :: "sock \<Rightarrow> (bool \<times> string) \<times> sock" where
  "parseClientHelloSNI c =
     (case peekClientHelloSNI c of
        (Inl e, c') \<Rightarrow> ((False, ''''), c')
      | (Inr (sni, wrapped), c') \<Rightarrow> ((sni \<noteq> '''', sni), c'))"

text \<open>
  The network a handler runs against: what a dial of an address yields (the upstream
  socket, or nothing when the dial fails), whether forwarding the request upstream fails,
  and the clock.
\<close>

record net_env =
  dial :: "string \<Rightarrow> sock option"
  forwardFails :: bool
  clock :: nat

text \<open>
  A handler is followed up to the point where the two \<^verbatim>\<open>proxyCopy\<close> goroutines start:
  it has either returned (its deferred closes done) or registered the pair under an id and
  is pumping.
\<close>

datatype outcome = Returned | Pumping string

definition handleTLSWithTermination ::
  "sock \<Rightarrow> RequestFilter \<Rightarrow> string \<Rightarrow> net_env \<Rightarrow> world \<Rightarrow> outcome \<times> world" where
  "handleTLSWithTermination clientConn0 flt haproxyAddress env w =
     (case parseClientHelloSNI clientConn0 of
        ((valid, sni), clientConn) \<Rightarrow>
          if \<not> valid \<or> sni = '''' then (Returned, conn_Close (TCPConn clientConn) w)
          else if \<not> AllowSNI flt sni then (Returned, conn_Close (TCPConn clientConn) w)
          else
            (case dial env haproxyAddress of
               None \<Rightarrow>
                 (Returned, conn_Close (TCPConn clientConn) (emit (DialAttempt haproxyAddress) w))
             | Some haproxyConn \<Rightarrow>
                 (case Add (TCPConn clientConn) (TCPConn haproxyConn)
                         \<lparr>ID = '''', ClientAddr = raddr clientConn, ServerAddr = raddr haproxyConn,
                          Hostname = '''', SNI = sni, Protocol = ''https_tls_termination'',
                          HAProxyAddr = haproxyAddress, CreatedAt = clock env\<rparr>
                         (emit (DialAttempt haproxyAddress) w) of
                    (i, w') \<Rightarrow> (Pumping i, w'))))"

definition handleTLSPassthrough ::
  "sock \<Rightarrow> RequestFilter \<Rightarrow> net_env \<Rightarrow> world \<Rightarrow> outcome \<times> world" where
  "handleTLSPassthrough clientConn0 flt env w =
     (case peekClientHelloSNI clientConn0 of
        (Inl e, raw) \<Rightarrow> (Returned, conn_Close (TCPConn raw) w)
      | (Inr (sni, wrappedConn), raw) \<Rightarrow>
          if sni = '''' then (Returned, conn_Close (TCPConn raw) w)
          else if \<not> AllowSNI flt sni then (Returned, conn_Close (TCPConn raw) w)
          else
            (case dial env (sni @ '':443'') of
               None \<Rightarrow> (Returned, conn_Close (TCPConn raw) (emit (DialAttempt (sni @ '':443'')) w))
             | Some destConn \<Rightarrow>
                 (case Add wrappedConn (TCPConn destConn)
                         \<lparr>ID = '''', ClientAddr = RemoteAddr wrappedConn, ServerAddr = raddr destConn,
                          Hostname = '''', SNI = sni, Protocol = ''https_tls_passthrough'',
                          HAProxyAddr = '''', CreatedAt = clock env\<rparr>
                         (emit (DialAttempt (sni @ '':443'')) w) of
                    (i, w') \<Rightarrow> (Pumping i, w'))))"

section \<open>The HTTP front door (events.go)\<close>

text \<open>
  The request as the handler uses it: \<^verbatim>\<open>r.Host\<close>, \<^verbatim>\<open>r.URL.Path\<close> and the bytes
  \<^verbatim>\<open>r.Write\<close> puts on the wire. The \<^verbatim>\<open>http.ResponseWriter\<close> of the standard library's
  server: the client socket behind it, whether it offers \<^verbatim>\<open>http.Hijacker\<close> (HTTP/1.x
  connections do), and whether the connection has been hijacked. As net/http documents
  for \<^verbatim>\<open>ErrHijacked\<close>, once the connection is hijacked \<^verbatim>\<open>WriteHeader\<close> and \<^verbatim>\<open>Write\<close> on the
  writer only log and send nothing, so \<^verbatim>\<open>http.Error\<close> reaches the client only before
  \<^verbatim>\<open>Hijack\<close>; it sends the status code with the message and a newline as body. A second
  \<^verbatim>\<open>Hijack\<close> fails with \<^verbatim>\<open>ErrHijacked\<close>. The hijacked buffered writer receives no bytes
  from the handler, so its deferred \<^verbatim>\<open>Flush\<close> writes nothing.
\<close>

record Request =
  Host :: string
  URLPath :: string
  wire :: string

record ResponseWriter =
  rwc :: sock
  isHijacker :: bool
  hijacked :: bool

definition http_Error :: "ResponseWriter \<Rightarrow> string \<Rightarrow> nat \<Rightarrow> world \<Rightarrow> world" where
  "http_Error rw msg code w =
     (if hijacked rw then w else emit (HTTPResponse (fd (rwc rw)) code (msg @ [CHR 0x0A])) w)"

definition Hijack :: "ResponseWriter \<Rightarrow> (string + conn) \<times> ResponseWriter" where
  "Hijack rw =
     (if hijacked rw then (Inl ''http: connection has been hijacked'', rw)
      else (Inr (TCPConn (rwc rw)), rw\<lparr>hijacked := True\<rparr>))"

definition handleHTTPProxy ::
  "ResponseWriter \<Rightarrow> Request \<Rightarrow> RequestFilter \<Rightarrow> net_env \<Rightarrow> world \<Rightarrow> outcome \<times> world" where
  "handleHTTPProxy rw r flt env w =
     (if \<not> AllowHTTP flt (Host r) (URLPath r) then
        (Returned, http_Error rw ''Blocked by proxy filter'' 403 w)
      else if \<not> isHijacker rw then
        (Returned, http_Error rw ''Hijacking not supported'' 500 w)
      else
        (case Hijack rw of
           (Inl err, rw') \<Rightarrow> (Returned, http_Error rw' (''Hijacking failed: '' @ err) 500 w)
         | (Inr clientConn, rw') \<Rightarrow>
             (case dial env (Host r @ '':80'') of
                None \<Rightarrow>
                  (Returned,
                   conn_Close clientConn
                     (http_Error rw' (''Failed to dial upstream server '' @ Host r) 502
                       (emit (DialAttempt (Host r @ '':80'')) w)))
              | Some serverConn \<Rightarrow>
                  (case Add clientConn (TCPConn serverConn)
                          \<lparr>ID = '''', ClientAddr = RemoteAddr clientConn, ServerAddr = raddr serverConn,
                           Hostname = Host r, SNI = '''', Protocol = ''http'',
                           HAProxyAddr = '''', CreatedAt = clock env\<rparr>
                          (emit (DialAttempt (Host r @ '':80'')) w) of
                     (i, w1) \<Rightarrow>
                       let w2 = conn_Write (TCPConn serverConn) (wire r) w1
                       in if forwardFails env then (Returned, closeConnPair i w2)
                          else (Pumping i, w2)))))"

section \<open>Sample inputs\<close>

definition sample_sock :: "nat \<Rightarrow> string \<Rightarrow> string list \<Rightarrow> sock" where
  "sample_sock n a segs = \<lparr>fd = n, raddr = a, pending = segs\<rparr>"

definition sample_meta :: "string \<Rightarrow> string \<Rightarrow> ConnMeta" where
  "sample_meta proto ha =
     \<lparr>ID = '''', ClientAddr = ''10.0.0.1:5000'', ServerAddr = ''10.0.0.2:80'',
      Hostname = '''', SNI = '''', Protocol = proto, HAProxyAddr = ha, CreatedAt = 0\<rparr>"

definition sample_client :: conn where
  "sample_client = TCPConn (sample_sock 7 ''10.0.0.1:5000'' [])"

definition sample_server :: conn where
  "sample_server = TCPConn (sample_sock 8 ''10.0.0.2:80'' [])"

lemmas registry_defs = Add_def NextID_def Store_def Load_def Delete_def Remove_def fresh_def
  NewConnManager_def HasPrefix_def dec.simps digit_def Let_def

text \<open>
  The specification's reading of the host for \<^verbatim>\<open>allow_http\<close>, in its own words: the host
  component "with any :port suffix stripped".
\<close>

definition spec_strip_port :: "string \<Rightarrow> string" where
  "spec_strip_port host = takeWhile (\<lambda>c. c \<noteq> CHR '':'') host"

section \<open>Sequences of registry operations\<close>

text \<open>
  A run of the registry from the fresh state: a list of \<^verbatim>\<open>Add\<close> and \<^verbatim>\<open>Remove\<close> calls,
  applied in order, and \<open>adds\<close> the number of \<^verbatim>\<open>Add\<close> calls in it. \<open>registered\<close> is the pairs in the registry, \<open>count_where\<close> the
  number of them that satisfy a predicate; \<open>is_https\<close> and \<open>via_haproxy\<close> are the two
  predicates the counters follow. \<open>undec\<close> reads a decimal numeral back, \<open>reg_inv\<close> is the
  invariant of a run after \<open>n\<close> calls of \<^verbatim>\<open>Add\<close>, and \<open>new_id\<close>, \<open>new_pc\<close> name the
  key and the entry the next \<^verbatim>\<open>Add\<close> stores.
\<close>

datatype op = OpAdd conn conn ConnMeta | OpRemove string

fun apply_op :: "op \<Rightarrow> world \<Rightarrow> world" where
  "apply_op (OpAdd client server meta) w = snd (Add client server meta w)"
| "apply_op (OpRemove i) w = Remove i w"

definition run :: "op list \<Rightarrow> world \<Rightarrow> world" where
  "run ops w = fold apply_op ops w"

fun is_add :: "op \<Rightarrow> bool" where
  "is_add (OpAdd client server meta) = True"
| "is_add (OpRemove i) = False"

definition adds :: "op list \<Rightarrow> nat" where
  "adds ops = length (filter is_add ops)"

definition registered :: "world \<Rightarrow> ProxyConnection list" where
  "registered w = map snd (conns (cm w))"

definition count_where :: "(ProxyConnection \<Rightarrow> bool) \<Rightarrow> world \<Rightarrow> nat" where
  "count_where P w = length (filter P (registered w))"

definition is_https :: "ProxyConnection \<Rightarrow> bool" where
  "is_https pc = HasPrefix (Protocol (Meta pc)) ''https''"

definition via_haproxy :: "ProxyConnection \<Rightarrow> bool" where
  "via_haproxy pc = (HAProxyAddr (Meta pc) \<noteq> '''')"

definition digit_val :: "char \<Rightarrow> nat" where
  "digit_val c = (case map_of (zip ''0123456789'' [0..<10]) c of None \<Rightarrow> 0 | Some d \<Rightarrow> d)"

definition undec :: "string \<Rightarrow> nat" where
  "undec s = foldl (\<lambda>a c. 10 * a + digit_val c) 0 s"

definition reg_inv :: "nat \<Rightarrow> world \<Rightarrow> bool" where
  "reg_inv n w \<longleftrightarrow>
     idSeq (cm w) = of_nat n
     \<and> distinct (map fst (conns (cm w)))
     \<and> (\<forall>k \<in> fst ` set (conns (cm w)). \<exists>j. j \<le> n \<and> k = ''conn-'' @ dec j)
     \<and> length (conns (cm w)) \<le> n
     \<and> ClientProxyConns (metrics w) = of_nat (length (registered w))
     \<and> ProxyServerConns (metrics w) = of_nat (length (registered w))
     \<and> HTTPSConnCount (metrics w) = of_nat (count_where is_https w)
     \<and> HTTPConnCount (metrics w) = of_nat (count_where (\<lambda>pc. \<not> is_https pc) w)
     \<and> ProxyHAProxyConns (metrics w) = of_nat (count_where via_haproxy w)"

definition new_id :: "world \<Rightarrow> string" where
  "new_id w = ''conn-'' @ dec (unat (idSeq (cm w) + 1))"

definition new_pc :: "conn \<Rightarrow> conn \<Rightarrow> ConnMeta \<Rightarrow> world \<Rightarrow> ProxyConnection" where
  "new_pc client server meta w = \<lparr>Client = client, Server = server, Meta = meta\<lparr>ID := new_id w\<rparr>\<rparr>"

section \<open>The bytes a connection still holds\<close>

text \<open>
  \<open>content\<close> is the byte sequence a connection has yet to deliver: the pending segments
  of a socket, preceded by the buffered bytes for a wrapped connection. A reader is
  consistent (\<open>reader_ok\<close>) when a pending error means the socket is exhausted, as it is
  for every reader built by \<^verbatim>\<open>NewReader\<close> and advanced by \<^verbatim>\<open>fill\<close>.
\<close>

fun content :: "conn \<Rightarrow> string" where
  "content (TCPConn s) = concat (pending s)"
| "content (connWithBufferedReader b) = rbuf b @ concat (pending (rd b))"

definition reader_ok :: "bufio_Reader \<Rightarrow> bool" where
  "reader_ok b \<longleftrightarrow> (rerr b \<noteq> None \<longrightarrow> concat (pending (rd b)) = [])"

fun conn_ok :: "conn \<Rightarrow> bool" where
  "conn_ok (TCPConn s) = True"
| "conn_ok (connWithBufferedReader b) = reader_ok b"

definition sample_ops :: "op list" where
  "sample_ops =
     [OpAdd sample_client sample_server (sample_meta ''http'' ''''),
      OpAdd sample_client sample_server (sample_meta ''https_tls_termination'' ''127.0.0.1:8443''),
      OpRemove ''conn-1'']"

definition one_http_conn :: world where
  "one_http_conn = snd (Add sample_client sample_server (sample_meta ''http'' '''') fresh)"

definition sample_rw :: ResponseWriter where
  "sample_rw = \<lparr>rwc = sample_sock 7 ''10.0.0.1:5000'' [], isHijacker = True, hijacked = False\<rparr>"

definition sample_request :: "string \<Rightarrow> Request" where
  "sample_request h = \<lparr>Host = h, URLPath = ''/'', wire = ''GET / HTTP/1.1''\<rparr>"

definition no_upstream :: net_env where
  "no_upstream = \<lparr>dial = (\<lambda>addr. None), forwardFails = False, clock = 0\<rparr>"

definition hello_sock :: sock where
  "hello_sock = sample_sock 7 ''10.0.0.1:5000'' [replicate 1024 (CHR 0x16), ''ABC'']"

definition not_tls_sock :: sock where
  "not_tls_sock = sample_sock 7 ''10.0.0.1:5000'' [replicate 1024 (CHR 0x00)]"

definition haproxy_up :: net_env where
  "haproxy_up =
     \<lparr>dial = (\<lambda>addr. if addr = ''127.0.0.1:8443'' then Some (sample_sock 9 ''127.0.0.1:8443'' []) else None),
      forwardFails = False, clock = 0\<rparr>"

section \<open>The counters follow the registry\<close>

lemma digit_val_digit: "d < 10 \<Longrightarrow> digit_val (digit d) = d"
proof -
  have "\<forall>d \<in> set [0..<10]. digit_val (digit d) = d"
    by (simp add: upt_rec digit_val_def digit_def)
  then show "d < 10 \<Longrightarrow> digit_val (digit d) = d" by simp
qed

lemma undec_dec: "undec (dec n) = n"
proof (induction n rule: dec.induct)
  case (1 n)
  show ?case
  proof (cases "n < 10")
    case True
    then show ?thesis by (simp add: dec.simps [of n] undec_def digit_val_digit)
  next
    case False
    with 1 have "undec (dec (n div 10)) = n div 10" by simp
    with False show ?thesis
      by (simp add: dec.simps [of n] undec_def digit_val_digit)
  qed
qed

lemma dec_inj: "dec n = dec m \<Longrightarrow> n = m"
  by (metis undec_dec)

lemma update_fresh_key:
  "k \<notin> fst ` set al \<Longrightarrow> AList.update k v al = al @ [(k, v)]"
  by (induction al) auto

lemma count_delete:
  "distinct (map fst al) \<Longrightarrow> map_of al k = Some v \<Longrightarrow>
   length (filter P (map snd al)) = length (filter P (map snd (AList.delete k al))) + (if P v then 1 else 0)"
proof (induction al)
  case Nil
  then show ?case by simp
next
  case (Cons a al)
  obtain k' v' where a: "a = (k', v')" by (cases a)
  show ?case
  proof (cases "k' = k")
    case True
    with Cons.prems a have "k \<notin> fst ` set al" and "v' = v" by auto
    then have "AList.delete k al = al" by (simp add: delete_id)
    with True a \<open>v' = v\<close> show ?thesis by simp
  next
    case False
    with Cons a show ?thesis by simp
  qed
qed

lemma sint_of_nat_small: "k < 2 ^ 63 \<Longrightarrow> sint (of_nat k :: 64 word) = int k"
  by (simp add: signed_of_nat signed_take_bit_int_eq_self)

lemma unat_of_nat_small: "k < 2 ^ 64 \<Longrightarrow> unat (of_nat k :: 64 word) = k"
  by (simp add: unat_of_nat take_bit_nat_eq_self)

lemma reg_inv_fresh: "reg_inv 0 fresh"
  by (simp add: reg_inv_def fresh_def NewConnManager_def registered_def count_where_def)

lemma Add_fst: "fst (Add client server meta w) = new_id w"
  by (simp add: Add_def NextID_def new_id_def Let_def)

lemma Add_cm:
  "cm (snd (Add client server meta w)) =
     \<lparr>conns = AList.update (new_id w) (new_pc client server meta w) (conns (cm w)),
      idSeq = idSeq (cm w) + 1\<rparr>"
  by (simp add: Add_def NextID_def Store_def new_id_def new_pc_def Let_def)

lemma Add_metrics:
  "metrics (snd (Add client server meta w)) =
     \<lparr>ClientProxyConns = ClientProxyConns (metrics w) + 1,
      ProxyServerConns = ProxyServerConns (metrics w) + 1,
      ProxyHAProxyConns = ProxyHAProxyConns (metrics w) + (if HAProxyAddr meta \<noteq> '''' then 1 else 0),
      HTTPConnCount = HTTPConnCount (metrics w) + (if HasPrefix (Protocol meta) ''https'' then 0 else 1),
      HTTPSConnCount = HTTPSConnCount (metrics w) + (if HasPrefix (Protocol meta) ''https'' then 1 else 0)\<rparr>"
  by (simp add: Add_def NextID_def Store_def Let_def)

lemma Add_trace: "trace (snd (Add client server meta w)) = trace w"
  by (simp add: Add_def NextID_def Store_def Let_def)

lemma reg_inv_Add:
  assumes inv: "reg_inv n w" and bound: "Suc n < 2 ^ 64"
  shows "reg_inv (Suc n) (snd (Add client server meta w))"
proof -
  let ?w' = "snd (Add client server meta w)"
  let ?pc = "new_pc client server meta w"
  from inv have seq: "idSeq (cm w) = of_nat n" by (simp add: reg_inv_def)
  then have "idSeq (cm w) + 1 = of_nat (Suc n)" by simp
  with bound have id: "new_id w = ''conn-'' @ dec (Suc n)"
    by (simp only: new_id_def unat_of_nat_small)
  have fresh_key: "new_id w \<notin> fst ` set (conns (cm w))"
  proof
    assume "new_id w \<in> fst ` set (conns (cm w))"
    with inv obtain j where "j \<le> n" and "new_id w = ''conn-'' @ dec j"
      by (auto simp: reg_inv_def)
    with id have "dec (Suc n) = dec j" by simp
    then have "Suc n = j" by (rule dec_inj)
    with \<open>j \<le> n\<close> show False by simp
  qed
  then have cs: "conns (cm ?w') = conns (cm w) @ [(new_id w, ?pc)]"
    by (simp add: Add_cm update_fresh_key)
  have p: "Protocol (Meta ?pc) = Protocol meta" "HAProxyAddr (Meta ?pc) = HAProxyAddr meta"
    by (simp_all add: new_pc_def)
  have keys: "\<forall>k \<in> fst ` set (conns (cm ?w')). \<exists>j. j \<le> Suc n \<and> k = ''conn-'' @ dec j"
  proof
    fix k assume "k \<in> fst ` set (conns (cm ?w'))"
    with cs have "k = new_id w \<or> k \<in> fst ` set (conns (cm w))" by auto
    then show "\<exists>j. j \<le> Suc n \<and> k = ''conn-'' @ dec j"
    proof
      assume "k = new_id w"
      with id show ?thesis by auto
    next
      assume "k \<in> fst ` set (conns (cm w))"
      with inv obtain j where "j \<le> n" "k = ''conn-'' @ dec j" by (auto simp: reg_inv_def)
      then show ?thesis by (intro exI [of _ j]) simp
    qed
  qed
  have d: "distinct (map fst (conns (cm ?w')))"
    using inv fresh_key by (simp add: cs reg_inv_def)
  have len: "length (conns (cm ?w')) \<le> Suc n"
    using inv by (simp add: cs reg_inv_def)
  have c1: "ClientProxyConns (metrics ?w') = of_nat (length (registered ?w'))"
    and c2: "ProxyServerConns (metrics ?w') = of_nat (length (registered ?w'))"
    using inv by (simp_all add: Add_metrics registered_def cs reg_inv_def)
  have c3: "HTTPSConnCount (metrics ?w') = of_nat (count_where is_https ?w')"
    using inv by (simp add: Add_metrics registered_def count_where_def cs reg_inv_def is_https_def p)
  have c4: "HTTPConnCount (metrics ?w') = of_nat (count_where (\<lambda>pc. \<not> is_https pc) ?w')"
    using inv by (simp add: Add_metrics registered_def count_where_def cs reg_inv_def is_https_def p)
  have c5: "ProxyHAProxyConns (metrics ?w') = of_nat (count_where via_haproxy ?w')"
    using inv by (simp add: Add_metrics registered_def count_where_def cs reg_inv_def via_haproxy_def p)
  have s: "idSeq (cm ?w') = of_nat (Suc n)"
    using seq by (simp add: Add_cm)
  from s d keys len c1 c2 c3 c4 c5 show ?thesis
    unfolding reg_inv_def by blast
qed

lemma Remove_absent: "Load i w = None \<Longrightarrow> Remove i w = w"
  by (simp add: Remove_def)

lemma Remove_cm:
  "Load i w = Some pc \<Longrightarrow>
   cm (Remove i w) = \<lparr>conns = AList.delete i (conns (cm w)), idSeq = idSeq (cm w)\<rparr>"
  by (simp add: Remove_def Delete_def Let_def)

lemma Remove_metrics:
  "Load i w = Some pc \<Longrightarrow>
   metrics (Remove i w) =
     \<lparr>ClientProxyConns = ClientProxyConns (metrics w) - 1,
      ProxyServerConns = ProxyServerConns (metrics w) - 1,
      ProxyHAProxyConns = ProxyHAProxyConns (metrics w) - (if via_haproxy pc then 1 else 0),
      HTTPConnCount = HTTPConnCount (metrics w) - (if is_https pc then 0 else 1),
      HTTPSConnCount = HTTPSConnCount (metrics w) - (if is_https pc then 1 else 0)\<rparr>"
  by (simp add: Remove_def Delete_def Let_def is_https_def via_haproxy_def)

lemma Remove_trace: "trace (Remove i w) = trace w"
  by (simp add: Remove_def Delete_def Let_def split: option.splits)

lemma reg_inv_Remove:
  assumes inv: "reg_inv n w"
  shows "reg_inv n (Remove i w)"
proof (cases "Load i w")
  case None
  with inv show ?thesis by (simp add: Remove_absent)
next
  case (Some pc)
  let ?w' = "Remove i w"
  let ?al = "conns (cm w)"
  from inv have dist: "distinct (map fst ?al)" by (simp add: reg_inv_def)
  from Some have look: "map_of ?al i = Some pc" by (simp add: Load_def)
  have cs: "conns (cm ?w') = AList.delete i ?al" by (simp add: Remove_cm [OF Some])
  have cnt: "\<And>P. length (filter P (map snd ?al))
      = length (filter P (map snd (AList.delete i ?al))) + (if P pc then 1 else 0)"
    by (rule count_delete [OF dist look])
  from cnt [of "\<lambda>_. True"] have len: "length ?al = Suc (length (AList.delete i ?al))"
    by simp
  have s: "idSeq (cm ?w') = of_nat n" using inv by (simp add: Remove_cm [OF Some] reg_inv_def)
  have d: "distinct (map fst (conns (cm ?w')))"
    using dist by (simp add: cs distinct_delete)
  have keys: "\<forall>k \<in> fst ` set (conns (cm ?w')). \<exists>j. j \<le> n \<and> k = ''conn-'' @ dec j"
    using inv dom_delete_subset [of i ?al] unfolding cs reg_inv_def by blast
  have l: "length (conns (cm ?w')) \<le> n"
    using inv len by (simp add: cs reg_inv_def)
  have c1: "ClientProxyConns (metrics ?w') = of_nat (length (registered ?w'))"
    and c2: "ProxyServerConns (metrics ?w') = of_nat (length (registered ?w'))"
    using inv len by (simp_all add: Remove_metrics [OF Some] registered_def cs reg_inv_def)
  have c3: "HTTPSConnCount (metrics ?w') = of_nat (count_where is_https ?w')"
    using inv cnt [of is_https]
    by (simp add: Remove_metrics [OF Some] registered_def count_where_def cs reg_inv_def)
  have c4: "HTTPConnCount (metrics ?w') = of_nat (count_where (\<lambda>pc. \<not> is_https pc) ?w')"
    using inv cnt [of "\<lambda>pc. \<not> is_https pc"]
    by (simp add: Remove_metrics [OF Some] registered_def count_where_def cs reg_inv_def)
  have c5: "ProxyHAProxyConns (metrics ?w') = of_nat (count_where via_haproxy ?w')"
    using inv cnt [of via_haproxy]
    by (simp add: Remove_metrics [OF Some] registered_def count_where_def cs reg_inv_def)
  from s d keys l c1 c2 c3 c4 c5 show ?thesis
    unfolding reg_inv_def by blast
qed

lemma reg_inv_run:
  "reg_inv n w \<Longrightarrow> n + adds ops < 2 ^ 64 \<Longrightarrow> reg_inv (n + adds ops) (run ops w)"
proof (induction ops arbitrary: n w)
  case Nil
  then show ?case by (simp add: run_def adds_def)
next
  case (Cons a ops)
  show ?case
  proof (cases a)
    case (OpAdd client server meta)
    from Cons.prems OpAdd have b: "Suc n + adds ops < 2 ^ 64" by (simp add: adds_def)
    then have "Suc n < 2 ^ 64" by simp
    with Cons.prems(1) have "reg_inv (Suc n) (apply_op a w)"
      by (simp add: OpAdd reg_inv_Add)
    from Cons.IH [OF this b] OpAdd show ?thesis by (simp add: run_def adds_def)
  next
    case (OpRemove i)
    with Cons.prems(1) have "reg_inv n (apply_op a w)" by (simp add: reg_inv_Remove)
    moreover from Cons.prems OpRemove have "n + adds ops < 2 ^ 64" by (simp add: adds_def)
    ultimately have "reg_inv (n + adds ops) (run ops (apply_op a w))" by (rule Cons.IH)
    with OpRemove show ?thesis by (simp add: run_def adds_def)
  qed
qed

text \<open>
  C4. For every sequence of \<^verbatim>\<open>Add\<close> and \<^verbatim>\<open>Remove\<close> calls on a fresh registry, each of the
  five counters, read as the \<^verbatim>\<open>int64\<close> it is, equals the number of registered pairs
  matching its predicate: both side counters the number of pairs, the https counter the
  pairs whose protocol starts with \<^verbatim>\<open>"https"\<close>, the http counter the rest, the HAProxy
  counter the pairs with a non-empty termination address. The sequence holds fewer than
  \<open>2 ^ 63\<close> calls of \<^verbatim>\<open>Add\<close>, the range in which the \<^verbatim>\<open>uint64\<close> id counter and the
  \<^verbatim>\<open>int64\<close> counters do not wrap; the number of \<^verbatim>\<open>Remove\<close> calls is free.
\<close>

theorem counters_equal_registry_counts:
  assumes "adds ops < 2 ^ 63"
  shows "sint (ClientProxyConns (metrics (run ops fresh))) = int (length (registered (run ops fresh)))
    \<and> sint (ProxyServerConns (metrics (run ops fresh))) = int (length (registered (run ops fresh)))
    \<and> sint (HTTPSConnCount (metrics (run ops fresh))) = int (count_where is_https (run ops fresh))
    \<and> sint (HTTPConnCount (metrics (run ops fresh))) = int (count_where (\<lambda>pc. \<not> is_https pc) (run ops fresh))
    \<and> sint (ProxyHAProxyConns (metrics (run ops fresh))) = int (count_where via_haproxy (run ops fresh))"
proof -
  let ?w = "run ops fresh"
  from assms have "0 + adds ops < (2::nat) ^ 64" by simp
  with reg_inv_fresh have inv: "reg_inv (0 + adds ops) ?w" by (rule reg_inv_run)
  then have "length (registered ?w) \<le> adds ops" by (simp add: reg_inv_def registered_def)
  with assms have small: "length (registered ?w) < 2 ^ 63" by simp
  have le: "\<And>P. count_where P ?w \<le> length (registered ?w)"
    by (simp add: count_where_def)
  have sm: "\<And>P. count_where P ?w < 2 ^ 63"
    using le small by (meson le_less_trans)
  from inv have
    "ClientProxyConns (metrics ?w) = of_nat (length (registered ?w))"
    "ProxyServerConns (metrics ?w) = of_nat (length (registered ?w))"
    "HTTPSConnCount (metrics ?w) = of_nat (count_where is_https ?w)"
    "HTTPConnCount (metrics ?w) = of_nat (count_where (\<lambda>pc. \<not> is_https pc) ?w)"
    "ProxyHAProxyConns (metrics ?w) = of_nat (count_where via_haproxy ?w)"
    by (simp_all add: reg_inv_def)
  then show ?thesis
    by (simp only: sint_of_nat_small [OF small] sint_of_nat_small [OF sm] simp_thms)
qed

theorem counters_equal_registry_counts_witness:
  "adds sample_ops < 2 ^ 63
   \<and> sint (ClientProxyConns (metrics (run sample_ops fresh))) = 1
   \<and> sint (ProxyServerConns (metrics (run sample_ops fresh))) = 1
   \<and> sint (HTTPSConnCount (metrics (run sample_ops fresh))) = 1
   \<and> sint (HTTPConnCount (metrics (run sample_ops fresh))) = 0
   \<and> sint (ProxyHAProxyConns (metrics (run sample_ops fresh))) = 1
   \<and> map (\<lambda>pc. ID (Meta pc)) (registered (run sample_ops fresh)) = [''conn-2'']"
proof -
  have h: "adds sample_ops < 2 ^ 63" by (simp add: adds_def sample_ops_def)
  have r: "registered (run sample_ops fresh) =
      [\<lparr>Client = sample_client, Server = sample_server,
        Meta = (sample_meta ''https_tls_termination'' ''127.0.0.1:8443'')\<lparr>ID := ''conn-2''\<rparr>\<rparr>]"
    by (simp add: registered_def run_def sample_ops_def registry_defs sample_meta_def)
  have c: "count_where is_https (run sample_ops fresh) = 1"
    "count_where (\<lambda>pc. \<not> is_https pc) (run sample_ops fresh) = 0"
    "count_where via_haproxy (run sample_ops fresh) = 1"
    by (simp_all add: count_where_def r is_https_def via_haproxy_def sample_meta_def HasPrefix_def)
  from counters_equal_registry_counts [OF h] h r c show ?thesis by simp
qed

section \<open>Forced close\<close>

text \<open>
  \<^verbatim>\<open>CloseByFilter\<close> deletes from the map itself and never calls \<^verbatim>\<open>Remove\<close>: whatever the
  predicate and the state, the counters are as they were.
\<close>

lemma CloseByFilter_metrics: "metrics (CloseByFilter flt w) = metrics w"
proof -
  have "\<And>w. metrics (fold (close_entry flt) al w) = metrics w" for al
    by (induction al)
       (auto simp: close_entry_def Delete_def sendHTTPConnectionClose_def conn_Write_def
          conn_Close_def emit_def split: prod.splits)
  then show ?thesis by (simp add: CloseByFilter_def)
qed

text \<open>
  C1 says that after \<^verbatim>\<open>CloseByFilter\<close> with the always-true predicate the snapshot is empty
  and all five counters are zero. On a fresh manager with one HTTP pair added, the
  snapshot is empty afterwards, but the two side counters and the http counter still read
  1; the handler's later \<^verbatim>\<open>Remove\<close> of the id finds no entry and leaves them at 1.
\<close>

theorem CloseByFilter_leaves_counters:
  "Stats one_http_conn = [(sample_meta ''http'' '''')\<lparr>ID := ''conn-1''\<rparr>]
   \<and> Stats (CloseByFilter (\<lambda>meta. True) one_http_conn) = []
   \<and> sint (ClientProxyConns (metrics (CloseByFilter (\<lambda>meta. True) one_http_conn))) = 1
   \<and> sint (ProxyServerConns (metrics (CloseByFilter (\<lambda>meta. True) one_http_conn))) = 1
   \<and> sint (HTTPConnCount (metrics (CloseByFilter (\<lambda>meta. True) one_http_conn))) = 1
   \<and> sint (ClientProxyConns
        (metrics (Remove ''conn-1'' (CloseByFilter (\<lambda>meta. True) one_http_conn)))) = 1"
  by (simp add: one_http_conn_def CloseByFilter_def close_entry_def Stats_def registry_defs
      sample_meta_def sendHTTPConnectionClose_def conn_Write_def conn_Close_def emit_def)

section \<open>Classification of protocols by prefix\<close>

text \<open>
  C10. \<^verbatim>\<open>Add\<close> classifies by string prefix: for every metadata whose \<^verbatim>\<open>Protocol\<close> does not
  start with \<^verbatim>\<open>"https"\<close> (the empty string and any unknown value included) it adds one to
  the http counter and leaves the https counter alone; \<^verbatim>\<open>Remove\<close> of a registered entry
  with such a protocol takes one off the http counter and leaves the https counter alone.
\<close>

theorem Add_Remove_classify_by_prefix:
  "(\<not> HasPrefix (Protocol meta) ''https'' \<longrightarrow>
      HTTPConnCount (metrics (snd (Add client server meta w))) = HTTPConnCount (metrics w) + 1
      \<and> HTTPSConnCount (metrics (snd (Add client server meta w))) = HTTPSConnCount (metrics w))
   \<and> (Load i w = Some pc \<and> \<not> HasPrefix (Protocol (Meta pc)) ''https'' \<longrightarrow>
      HTTPConnCount (metrics (Remove i w)) = HTTPConnCount (metrics w) - 1
      \<and> HTTPSConnCount (metrics (Remove i w)) = HTTPSConnCount (metrics w))"
  by (simp add: Add_def NextID_def Store_def Remove_def Delete_def Let_def)

theorem Add_Remove_classify_by_prefix_witness:
  "\<not> HasPrefix (Protocol (sample_meta ''ftp'' '''')) ''https''
   \<and> HTTPConnCount (metrics (snd (Add sample_client sample_server (sample_meta ''ftp'' '''') fresh))) = 1
   \<and> HTTPSConnCount (metrics (snd (Add sample_client sample_server (sample_meta ''ftp'' '''') fresh))) = 0
   \<and> Load ''conn-1'' (snd (Add sample_client sample_server (sample_meta '''' '''') fresh))
       = Some \<lparr>Client = sample_client, Server = sample_server, Meta = (sample_meta '''' '''')\<lparr>ID := ''conn-1''\<rparr>\<rparr>
   \<and> HTTPConnCount (metrics (Remove ''conn-1'' (snd (Add sample_client sample_server (sample_meta '''' '''') fresh)))) = 0"
proof -
  let ?w = "snd (Add sample_client sample_server (sample_meta '''' '''') fresh)"
  let ?pc = "\<lparr>Client = sample_client, Server = sample_server, Meta = (sample_meta '''' '''')\<lparr>ID := ''conn-1''\<rparr>\<rparr>"
  have h1: "\<not> HasPrefix (Protocol (sample_meta ''ftp'' '''')) ''https''"
    by (simp add: sample_meta_def HasPrefix_def)
  have h2: "Load ''conn-1'' ?w = Some ?pc"
    by (simp add: registry_defs sample_meta_def)
  have h3: "\<not> HasPrefix (Protocol (Meta ?pc)) ''https''"
    by (simp add: sample_meta_def HasPrefix_def)
  have m0: "HTTPConnCount (metrics fresh) = 0" "HTTPSConnCount (metrics fresh) = 0"
    by (simp_all add: fresh_def)
  have m1: "HTTPConnCount (metrics ?w) = 1" by (simp add: registry_defs sample_meta_def)
  from Add_Remove_classify_by_prefix [where meta = "sample_meta ''ftp'' ''''" and client = sample_client
      and server = sample_server and w = fresh] h1 m0
  have a: "HTTPConnCount (metrics (snd (Add sample_client sample_server (sample_meta ''ftp'' '''') fresh))) = 1
     \<and> HTTPSConnCount (metrics (snd (Add sample_client sample_server (sample_meta ''ftp'' '''') fresh))) = 0"
    by simp
  from Add_Remove_classify_by_prefix [where w = ?w and i = "''conn-1''" and pc = ?pc] h2 h3 m1
  have b: "HTTPConnCount (metrics (Remove ''conn-1'' ?w)) = 0" by simp
  from h1 a h2 b show ?thesis by simp
qed

section \<open>The admission filter\<close>

lemma dom_fold_allow:
  "dom (fold (\<lambda>h m. m(ToLower h \<mapsto> ())) hs m0) = dom m0 \<union> ToLower ` set hs"
  by (induction hs arbitrary: m0) auto

lemma allowed_iff_dom: "(case m k of Some _ \<Rightarrow> True | None \<Rightarrow> False) = (k \<in> dom m)"
  by (auto split: option.splits)

text \<open>
  C6, as stated: \<^verbatim>\<open>AllowHTTP\<close> holds exactly when the host with its port stripped,
  lowercased, is in the HTTP allowlist. It fails for a host that carries a port:
  \<^verbatim>\<open>AllowHTTP\<close> lowercases the string it is given and looks that up, port and all.
\<close>

theorem AllowHTTP_port_counterexample:
  "\<not> (AllowHTTP NewRequestFilter ''example.com:80'' ''/''
        \<longleftrightarrow> ToLower (spec_strip_port ''example.com:80'') \<in> dom (allowedHosts NewRequestFilter))"
  by (simp add: spec_strip_port_def ToLower_def lower_char_def NewRequestFilter_def AllowHTTP_def)

text \<open>
  C6, amended: for every filter state, host and path, \<^verbatim>\<open>AllowHTTP\<close> holds exactly when
  the lowercased host string, as given and with no port stripping, is a member of the HTTP
  allowlist; after a reload, exactly when it equals the lowercase form of a loaded host.
  There is no wildcard or suffix matching.
\<close>

theorem AllowHTTP_exact_lowercase_match:
  "(AllowHTTP f host path \<longleftrightarrow> ToLower host \<in> dom (allowedHosts f))
   \<and> (AllowHTTP (Reload hosts snis now f) host path \<longleftrightarrow> ToLower host \<in> ToLower ` set hosts)"
  by (simp add: AllowHTTP_def allowed_iff_dom Reload_def dom_fold_allow)

text \<open>
  C9, as stated: in every reachable filter state the empty host and the empty SNI are
  refused. It fails after a reload whose lists contain the empty string.
\<close>

theorem empty_input_counterexample:
  "AllowHTTP (Reload [''''] [''''] 1 NewRequestFilter) '''' ''/''
   \<and> AllowSNI (Reload [''''] [''''] 1 NewRequestFilter) ''''"
  by (simp add: AllowHTTP_def AllowSNI_def Reload_def ToLower_def)

text \<open>
  C9, amended: the initial filter refuses the empty host and the empty SNI; after a
  reload the empty host (SNI) is admitted exactly when the loaded host (SNI) list
  contains the empty string.
\<close>

theorem empty_input_allowed_iff_loaded:
  "\<not> AllowHTTP NewRequestFilter '''' path
   \<and> \<not> AllowSNI NewRequestFilter ''''
   \<and> (AllowHTTP (Reload hosts snis now f) '''' path \<longleftrightarrow> '''' \<in> set hosts)
   \<and> (AllowSNI (Reload hosts snis now f) '''' \<longleftrightarrow> '''' \<in> set snis)"
proof -
  have e: "ToLower '''' = ''''" by (simp add: ToLower_def)
  have i: "\<And>xs. ('''' \<in> ToLower ` set xs) = ('''' \<in> set xs)"
    by (auto simp: ToLower_def image_iff)
  show ?thesis
    by (simp add: AllowHTTP_def AllowSNI_def allowed_iff_dom Reload_def dom_fold_allow e i
        NewRequestFilter_def)
qed

section \<open>The HTTP front door\<close>

lemmas http_defs = handleHTTPProxy_def AllowHTTP_def NewRequestFilter_def ToLower_def lower_char_def
  sample_rw_def sample_request_def no_upstream_def sample_sock_def http_Error_def Hijack_def
  conn_Close_def emit_def fresh_def

text \<open>
  C7 says that on a failed upstream dial the client receives \<^verbatim>\<open>502 Bad Gateway\<close> before its
  connection is closed. The handler calls \<^verbatim>\<open>http.Error\<close> with status 502 only after
  \<^verbatim>\<open>Hijack\<close>, when the writer no longer sends anything: for an admitted host whose dial
  fails, all that happens is the dial attempt and the close of the client socket. No
  response is sent; the registry and the counters stay as they were.
\<close>

theorem dial_failure_sends_no_response:
  "AllowHTTP NewRequestFilter (Host (sample_request ''example.com'')) (URLPath (sample_request ''example.com''))
   \<and> dial no_upstream ''example.com:80'' = None
   \<and> handleHTTPProxy sample_rw (sample_request ''example.com'') NewRequestFilter no_upstream fresh
       = (Returned, fresh\<lparr>trace := [DialAttempt ''example.com:80'', ConnClose 7]\<rparr>)"
  by (simp add: http_defs)

text \<open>
  C8, as stated: on a denied host the front door responds 403, closes the client, dials
  nothing and registers nothing. The handler does not close the client: it writes the
  response and returns, and the connection stays with the HTTP server.
\<close>

theorem denied_request_client_not_closed:
  "\<not> AllowHTTP NewRequestFilter (Host (sample_request ''evil.test'')) (URLPath (sample_request ''evil.test''))
   \<and> ConnClose (fd (rwc sample_rw))
       \<notin> set (trace (snd (handleHTTPProxy sample_rw (sample_request ''evil.test'') NewRequestFilter
                             no_upstream fresh)))"
  by (simp add: http_defs)

text \<open>
  C8, amended: when the filter denies the host of a request, the handler's only effect is
  the response \<^verbatim>\<open>403 Forbidden\<close> with body \<^verbatim>\<open>"Blocked by proxy filter"\<close> and a newline: no
  dial is attempted, the registry and the counters are unchanged, and the handler returns
  without hijacking or closing the client connection.
\<close>

theorem denied_request_gets_403:
  assumes "\<not> AllowHTTP flt (Host r) (URLPath r)" and "\<not> hijacked rw"
  shows "handleHTTPProxy rw r flt env w =
           (Returned,
            w\<lparr>trace := trace w @ [HTTPResponse (fd (rwc rw)) 403 (''Blocked by proxy filter'' @ [CHR 0x0A])]\<rparr>)"
  using assms by (simp add: handleHTTPProxy_def http_Error_def emit_def)

theorem denied_request_gets_403_witness:
  "\<not> AllowHTTP NewRequestFilter (Host (sample_request ''evil.test'')) (URLPath (sample_request ''evil.test''))
   \<and> \<not> hijacked sample_rw
   \<and> handleHTTPProxy sample_rw (sample_request ''evil.test'') NewRequestFilter no_upstream fresh =
        (Returned, fresh\<lparr>trace := [HTTPResponse 7 403 (''Blocked by proxy filter'' @ [CHR 0x0A])]\<rparr>)"
proof -
  have h1: "\<not> AllowHTTP NewRequestFilter (Host (sample_request ''evil.test'')) (URLPath (sample_request ''evil.test''))"
    by (simp add: AllowHTTP_def NewRequestFilter_def ToLower_def lower_char_def sample_request_def)
  have h2: "\<not> hijacked sample_rw" by (simp add: sample_rw_def)
  from denied_request_gets_403 [OF h1 h2, of no_upstream fresh] h1 h2 show ?thesis
    by (simp add: sample_rw_def sample_sock_def fresh_def)
qed

section \<open>The peek is non-destructive\<close>

lemma seg_read_cases:
  assumes "seg_read k p = ((d, e), p')"
  shows "d @ concat p' = concat p \<and> (e \<noteq> None \<longrightarrow> d = [] \<and> concat p = [] \<and> concat p' = [])"
proof (cases e)
  case None
  with seg_read_concat [OF assms] show ?thesis by simp
next
  case (Some x)
  with assms seg_read_err [of k p d x p'] seg_read_concat [OF assms] show ?thesis by simp
qed

lemma fill_content:
  "rbuf (fill b) @ concat (pending (rd (fill b))) = rbuf b @ concat (pending (rd b))"
proof -
  obtain d e p' where r: "seg_read (defaultBufSize - length (rbuf b)) (pending (rd b)) = ((d, e), p')"
    by (metis prod.exhaust)
  from seg_read_cases [OF r] show ?thesis
    by (simp add: fill_def sock_Read_def r)
qed

lemma fill_ok: "reader_ok (fill b)"
proof -
  obtain d e p' where r: "seg_read (defaultBufSize - length (rbuf b)) (pending (rd b)) = ((d, e), p')"
    by (metis prod.exhaust)
  from seg_read_cases [OF r] show ?thesis
    by (simp add: fill_def sock_Read_def r reader_ok_def)
qed

lemma fill_ident: "fd (rd (fill b)) = fd (rd b) \<and> raddr (rd (fill b)) = raddr (rd b)"
  by (simp add: fill_def sock_Read_def split: prod.splits)

lemma Peek_loop_stop:
  "\<not> (length (rbuf b) < n \<and> length (rbuf b) < defaultBufSize \<and> rerr b = None) \<Longrightarrow> Peek_loop n b = b"
  by (subst Peek_loop.simps) (erule if_not_P)

lemma Peek_loop_go:
  "length (rbuf b) < n \<and> length (rbuf b) < defaultBufSize \<and> rerr b = None \<Longrightarrow>
   Peek_loop n b = Peek_loop n (fill b)"
  by (subst Peek_loop.simps) (erule if_P)

lemma Peek_loop_content:
  "rbuf (Peek_loop n b) @ concat (pending (rd (Peek_loop n b))) = rbuf b @ concat (pending (rd b))"
proof (induction n b rule: Peek_loop.induct)
  case (1 n b)
  show ?case
  proof (cases "length (rbuf b) < n \<and> length (rbuf b) < defaultBufSize \<and> rerr b = None")
    case True
    from 1 [OF True] show ?thesis by (simp only: Peek_loop_go [OF True] fill_content)
  next
    case False
    show ?thesis by (simp only: Peek_loop_stop [OF False])
  qed
qed

lemma Peek_loop_ok: "reader_ok b \<Longrightarrow> reader_ok (Peek_loop n b)"
proof (induction n b rule: Peek_loop.induct)
  case (1 n b)
  show ?case
  proof (cases "length (rbuf b) < n \<and> length (rbuf b) < defaultBufSize \<and> rerr b = None")
    case True
    from "1.IH" [OF True fill_ok] show ?thesis by (simp only: Peek_loop_go [OF True])
  next
    case False
    from "1.prems" show ?thesis by (simp only: Peek_loop_stop [OF False])
  qed
qed

lemma conn_Read_step:
  assumes r: "conn_Read k c = ((d, e), c')" and k: "0 < k" and ok: "conn_ok c"
  shows "(e = None \<longrightarrow> d @ content c' = content c \<and> conn_ok c') \<and> (e \<noteq> None \<longrightarrow> d = content c)"
proof (cases c)
  case (TCPConn s)
  obtain d1 e1 p1 where r1: "seg_read k (pending s) = ((d1, e1), p1)" by (metis prod.exhaust)
  from seg_read_cases [OF r1] r TCPConn show ?thesis
    by (auto simp: sock_Read_def r1)
next
  case (connWithBufferedReader b)
  obtain d1 e1 p1 where r1: "seg_read k (pending (rd b)) = ((d1, e1), p1)" by (metis prod.exhaust)
  obtain d2 e2 p2 where r2: "seg_read defaultBufSize (pending (rd b)) = ((d2, e2), p2)"
    by (metis prod.exhaust)
  from ok connWithBufferedReader have okb: "rerr b \<noteq> None \<longrightarrow> concat (pending (rd b)) = []"
    by (simp add: reader_ok_def)
  show ?thesis
  proof (cases "rbuf b = []")
    case False
    with r k connWithBufferedReader okb show ?thesis
      by (auto simp: bufio_Read_def reader_ok_def)
  next
    case True
    note empty = this
    show ?thesis
    proof (cases "rerr b \<noteq> None")
      case True
      with r k connWithBufferedReader okb empty show ?thesis
        by (auto simp: bufio_Read_def readErr_def)
    next
      case False
      note noerr = this
      show ?thesis
      proof (cases "defaultBufSize \<le> k")
        case True
        with r k connWithBufferedReader empty noerr seg_read_cases [OF r1] show ?thesis
          by (auto simp: bufio_Read_def readErr_def sock_Read_def r1 reader_ok_def)
      next
        case False
        have t: "take k d2 @ drop k d2 @ concat p2 = concat (pending (rd b))"
          using seg_read_cases [OF r2] by (metis append_assoc append_take_drop_id)
        from False r k connWithBufferedReader empty noerr seg_read_cases [OF r2] t show ?thesis
          by (auto simp: bufio_Read_def readErr_def sock_Read_def r2 reader_ok_def split: if_splits)
      qed
    qed
  qed
qed

lemma read_all_content: "0 < k \<Longrightarrow> conn_ok c \<Longrightarrow> read_all k c = content c"
proof (induction k c rule: read_all.induct)
  case (1 k c)
  obtain d e c' where r: "conn_Read k c = ((d, e), c')" by (metis prod.exhaust)
  from conn_Read_step [OF r "1.prems"]
  have s: "(e = None \<longrightarrow> d @ content c' = content c \<and> conn_ok c') \<and> (e \<noteq> None \<longrightarrow> d = content c)" .
  show ?case
  proof (cases "e = None")
    case True
    with s have "conn_ok c'" by simp
    with 1 r True have "read_all k c' = content c'" by simp
    with True s r "1.prems" show ?thesis by (simp add: read_all.simps [of k c])
  next
    case False
    with s r "1.prems" show ?thesis by (auto simp: read_all.simps [of k c])
  qed
qed

lemma peek_wrapped:
  assumes "peekClientHelloSNI s = (Inr (sni, wrapped), s')"
  shows "wrapped = connWithBufferedReader (Peek_loop 1024 (NewReader s))
         \<and> s' = rd (Peek_loop 1024 (NewReader s))
         \<and> 1024 \<le> length (rbuf (Peek_loop 1024 (NewReader s)))"
  using assms
  by (auto simp: peekClientHelloSNI_def Peek_def Let_def defaultBufSize_def readErr_def
      extractSNIFromTLSClientHello_def split: if_splits option.splits prod.splits)

lemma wrapped_reads_whole:
  assumes "peekClientHelloSNI s = (Inr (sni, wrapped), s')" and "0 < k"
  shows "read_all k wrapped = concat (pending s)"
proof -
  let ?b = "Peek_loop 1024 (NewReader s)"
  from peek_wrapped [OF assms(1)] have w: "wrapped = connWithBufferedReader ?b" by simp
  have "reader_ok (NewReader s)" by (simp add: reader_ok_def NewReader_def)
  then have "conn_ok wrapped" by (simp add: w Peek_loop_ok)
  then have "read_all k wrapped = content wrapped" using assms(2) by (simp add: read_all_content)
  also have "\<dots> = rbuf (NewReader s) @ concat (pending (rd (NewReader s)))"
    by (simp add: w Peek_loop_content)
  also have "\<dots> = concat (pending s)" by (simp add: NewReader_def)
  finally show ?thesis .
qed

lemmas peek_defs = peekClientHelloSNI_def Peek_def Peek_loop.simps NewReader_def fill_def
  sock_Read_def defaultBufSize_def readErr_def extractSNIFromTLSClientHello_def Let_def
  sample_sock_def

lemma hello_peek:
  "peekClientHelloSNI hello_sock =
     (Inr (''example.com'',
           connWithBufferedReader
             \<lparr>rbuf = replicate 1024 (CHR 0x16), rerr = None, rd = hello_sock\<lparr>pending := [''ABC'']\<rparr>\<rparr>),
      hello_sock\<lparr>pending := [''ABC'']\<rparr>)"
  by (simp add: peek_defs hello_sock_def)

lemma read_rest:
  "read_all copyBufSize (TCPConn (hello_sock\<lparr>pending := [''ABC'']\<rparr>)) = ''ABC''"
  by (simp add: read_all.simps copyBufSize_def sock_Read_def hello_sock_def sample_sock_def)

lemma read_raw:
  "read_all copyBufSize (TCPConn hello_sock) = replicate 1024 (CHR 0x16) @ ''ABC''"
  by (simp add: read_all.simps copyBufSize_def sock_Read_def hello_sock_def sample_sock_def)

text \<open>
  C5. Whenever \<^verbatim>\<open>peekClientHelloSNI\<close> returns a wrapped connection, reading it to
  exhaustion (with any non-empty buffer) yields exactly the bytes that reading the
  socket from its first byte would have yielded, the peeked bytes included.
\<close>

theorem wrapped_stream_is_whole_stream:
  assumes "peekClientHelloSNI s = (Inr (sni, wrapped), s')" and "0 < k" and "0 < k'"
  shows "read_all k wrapped = read_all k' (TCPConn s) \<and> read_all k wrapped = concat (pending s)"
proof -
  have "read_all k' (TCPConn s) = concat (pending s)"
    using assms(3) by (simp add: read_all_content)
  with wrapped_reads_whole [OF assms(1,2)] show ?thesis by simp
qed

theorem wrapped_stream_is_whole_stream_witness:
  "peekClientHelloSNI hello_sock =
     (Inr (''example.com'',
           connWithBufferedReader
             \<lparr>rbuf = replicate 1024 (CHR 0x16), rerr = None, rd = hello_sock\<lparr>pending := [''ABC'']\<rparr>\<rparr>),
      hello_sock\<lparr>pending := [''ABC'']\<rparr>)
   \<and> 0 < copyBufSize
   \<and> read_all copyBufSize
         (connWithBufferedReader
            \<lparr>rbuf = replicate 1024 (CHR 0x16), rerr = None, rd = hello_sock\<lparr>pending := [''ABC'']\<rparr>\<rparr>)
       = read_all copyBufSize (TCPConn hello_sock)
   \<and> read_all copyBufSize
         (connWithBufferedReader
            \<lparr>rbuf = replicate 1024 (CHR 0x16), rerr = None, rd = hello_sock\<lparr>pending := [''ABC'']\<rparr>\<rparr>)
       = replicate 1024 (CHR 0x16) @ ''ABC''"
proof -
  have k: "0 < copyBufSize" by (simp add: copyBufSize_def)
  from wrapped_stream_is_whole_stream [OF hello_peek k k] hello_peek k show ?thesis
    by (simp add: read_raw)
qed

section \<open>What the TLS front door registers\<close>

lemma Load_Add:
  "Load (fst (Add client server meta w)) (snd (Add client server meta w))
     = Some (new_pc client server meta w)"
  by (simp add: Load_def Add_fst Add_cm update_conv')

text \<open>
  Passthrough mode registers the wrapped connection: the client side of the registered
  pair delivers the whole client stream, starting with the peeked bytes.
\<close>

lemma passthrough_registers_wrapped_stream:
  assumes "handleTLSPassthrough s flt env w = (Pumping i, w')" and "0 < k"
  shows "map_option (\<lambda>pc. read_all k (Client pc)) (Load i w') = Some (concat (pending s))"
proof -
  obtain res raw where p: "peekClientHelloSNI s = (res, raw)" by (cases "peekClientHelloSNI s")
  from assms(1) p obtain sni wrapped where res: "res = Inr (sni, wrapped)"
    by (cases res) (auto simp: handleTLSPassthrough_def)
  from assms(1) p res obtain destConn where d: "dial env (sni @ '':443'') = Some destConn"
    by (cases "dial env (sni @ '':443'')") (auto simp: handleTLSPassthrough_def split: if_splits)
  let ?meta = "\<lparr>ID = [], ClientAddr = RemoteAddr wrapped, ServerAddr = raddr destConn,
      Hostname = [], SNI = sni, Protocol = ''https_tls_passthrough'',
      HAProxyAddr = [], CreatedAt = clock env\<rparr>"
  let ?a = "Add wrapped (TCPConn destConn) ?meta (emit (DialAttempt (sni @ '':443'')) w)"
  from assms(1) p res d have "i = fst ?a" and "w' = snd ?a"
    by (auto simp: handleTLSPassthrough_def split: if_splits prod.splits)
  then have "Load i w' = Some (new_pc wrapped (TCPConn destConn) ?meta (emit (DialAttempt (sni @ '':443'')) w))"
    by (simp only: Load_Add)
  moreover have "read_all k wrapped = concat (pending s)"
    using p res assms(2) by (simp add: wrapped_reads_whole)
  ultimately show ?thesis by (simp add: new_pc_def)
qed

text \<open>
  C2 says that in both modes the registered client side is the wrapped connection, so
  that the pump's first bytes are the peeked ClientHello. Termination mode calls
  \<^verbatim>\<open>parseClientHelloSNI\<close>, which drops the wrapped connection, and registers the raw
  socket the reader has already read from: for a client that sends 1024 bytes and then
  \<^verbatim>\<open>"ABC"\<close>, the registered client side delivers only \<^verbatim>\<open>"ABC"\<close>, while the socket would
  have delivered all 1027 bytes.
\<close>

theorem termination_registers_raw_socket:
  "fst (handleTLSWithTermination hello_sock NewRequestFilter ''127.0.0.1:8443'' haproxy_up fresh)
     = Pumping ''conn-1''
   \<and> map_option Client
        (Load ''conn-1'' (snd (handleTLSWithTermination hello_sock NewRequestFilter ''127.0.0.1:8443''
                                 haproxy_up fresh)))
     = Some (TCPConn (hello_sock\<lparr>pending := [''ABC'']\<rparr>))
   \<and> read_all copyBufSize (TCPConn (hello_sock\<lparr>pending := [''ABC'']\<rparr>)) = ''ABC''
   \<and> read_all copyBufSize (TCPConn hello_sock) = replicate 1024 (CHR 0x16) @ ''ABC''"
  by (simp add: handleTLSWithTermination_def parseClientHelloSNI_def hello_peek AllowSNI_def
      NewRequestFilter_def ToLower_def lower_char_def haproxy_up_def registry_defs emit_def
      read_rest read_raw)

theorem termination_registers_raw_socket_witness:
  "parseClientHelloSNI hello_sock = ((True, ''example.com''), hello_sock\<lparr>pending := [''ABC'']\<rparr>)
   \<and> AllowSNI NewRequestFilter ''example.com''
   \<and> dial haproxy_up ''127.0.0.1:8443'' = Some (sample_sock 9 ''127.0.0.1:8443'' [])
   \<and> fst (handleTLSWithTermination hello_sock NewRequestFilter ''127.0.0.1:8443'' haproxy_up fresh)
       = Pumping ''conn-1''
   \<and> map_option (\<lambda>pc. read_all copyBufSize (Client pc))
        (Load ''conn-1'' (snd (handleTLSWithTermination hello_sock NewRequestFilter ''127.0.0.1:8443''
                                 haproxy_up fresh)))
       = Some ''ABC''"
proof -
  have p: "parseClientHelloSNI hello_sock = ((True, ''example.com''), hello_sock\<lparr>pending := [''ABC'']\<rparr>)"
    by (simp add: parseClientHelloSNI_def hello_peek)
  have a: "AllowSNI NewRequestFilter ''example.com''"
    by (simp add: AllowSNI_def NewRequestFilter_def ToLower_def lower_char_def)
  have d: "dial haproxy_up ''127.0.0.1:8443'' = Some (sample_sock 9 ''127.0.0.1:8443'' [])"
    by (simp add: haproxy_up_def)
  from termination_registers_raw_socket p a d show ?thesis
    by auto
qed

section \<open>The ClientHello parser\<close>

text \<open>
  C3 says that a peeked byte sequence with an invalid TLS record header (first byte not
  \<^verbatim>\<open>0x16\<close>, and so on) makes SNI extraction fail and return no host name.
  \<^verbatim>\<open>extractSNIFromTLSClientHello\<close> does not look at its input: for 1024 zero bytes it
  returns \<^verbatim>\<open>"example.com"\<close> and no error, and the peek on a socket delivering them succeeds
  with that name.
\<close>

theorem stub_accepts_non_tls:
  "hd (replicate 1024 (CHR 0x00)) \<noteq> CHR 0x16
   \<and> extractSNIFromTLSClientHello (replicate 1024 (CHR 0x00)) = (''example.com'', None)
   \<and> fst (peekClientHelloSNI not_tls_sock) =
       Inr (''example.com'',
            connWithBufferedReader
              \<lparr>rbuf = replicate 1024 (CHR 0x00), rerr = None, rd = not_tls_sock\<lparr>pending := []\<rparr>\<rparr>)"
  by (simp add: peek_defs not_tls_sock_def)

theorem stub_accepts_non_tls_witness:
  "Peek 1024 (NewReader not_tls_sock) =
     ((replicate 1024 (CHR 0x00), None),
      \<lparr>rbuf = replicate 1024 (CHR 0x00), rerr = None, rd = not_tls_sock\<lparr>pending := []\<rparr>\<rparr>)
   \<and> fst (extractSNIFromTLSClientHello (replicate 1024 (CHR 0x00))) \<noteq> []
   \<and> snd (extractSNIFromTLSClientHello (replicate 1024 (CHR 0x00))) = None
   \<and> (case fst (peekClientHelloSNI not_tls_sock) of
         Inl e \<Rightarrow> False
       | Inr (sni, wrapped) \<Rightarrow> sni = ''example.com'')"
proof -
  have p: "Peek 1024 (NewReader not_tls_sock) =
     ((replicate 1024 (CHR 0x00), None),
      \<lparr>rbuf = replicate 1024 (CHR 0x00), rerr = None, rd = not_tls_sock\<lparr>pending := []\<rparr>\<rparr>)"
    by (simp add: Peek_def Peek_loop.simps NewReader_def fill_def sock_Read_def defaultBufSize_def
        not_tls_sock_def sample_sock_def Let_def)
  from stub_accepts_non_tls p show ?thesis by simp
qed

end
